theory Spec2Isabelle
  imports Complex_Main "HOL-Library.Multiset"
begin

section \<open>Data model of the sequence bin-packing collator\<close>

text \<open>
  The development embeds \<^verbatim>\<open>src/llmfoundry/data/packing.py\<close>. A 1-D tensor of token
  values is a list of integers (the element type of the tensors is chosen by the caller;
  nothing below depends on its width: the only arithmetic on elements is the offset
  of sequence ids, which count the examples merged into one bin). A Python \<^verbatim>\<open>dict\<close> from
  field names to tensors is an association list in insertion order with distinct keys.
  A bin is the tuple \<^verbatim>\<open>(bin_size, packed_example)\<close> of the source.
\<close>

type_synonym tensor = "int list"
type_synonym example = "(string \<times> tensor) list"
type_synonym bin = "int \<times> example"
type_synonym batch = "(string \<times> tensor list) list"

text \<open>
  Every \<^verbatim>\<open>raise\<close>, failed \<^verbatim>\<open>assert\<close> and failing library call of the source is a value.
  \<open>AssertionError\<close> carries the message of the source: a bare \<^verbatim>\<open>assert\<close> has the empty
  message, the explicit \<^verbatim>\<open>raise AssertionError(f'Error in packing. ...')\<close> has the
  message \<open>''Error in packing''\<close>.
\<close>

datatype error =
    ValueError
  | AssertionError string
  | KeyError
  | IndexError
  | RuntimeError
  | ZeroDivisionError

definition CROSS_ENTROPY_IGNORE_INDEX :: int where
  \<comment> \<open>Modelled from the spec: the constant of \<^verbatim>\<open>llmfoundry.utils.consts\<close>, which is not among
      the sources; the spec gives the ignore index as -100.\<close>
  "CROSS_ENTROPY_IGNORE_INDEX = - 100"

subsection \<open>Python dictionaries, slices and sorting\<close>

definition dict_get :: "('k \<times> 'v) list \<Rightarrow> 'k \<Rightarrow> error + 'v" where
  "dict_get d k = (case map_of d k of None \<Rightarrow> Inl KeyError | Some v \<Rightarrow> Inr v)"

fun dict_set :: "'k \<Rightarrow> 'v \<Rightarrow> ('k \<times> 'v) list \<Rightarrow> ('k \<times> 'v) list" where
  "dict_set k v [] = [(k, v)]"
| "dict_set k v ((k', v') # d) = (if k' = k then (k, v) # d else (k', v') # dict_set k v d)"

fun map_err :: "('a \<Rightarrow> error + 'b) \<Rightarrow> 'a list \<Rightarrow> error + 'b list" where
  "map_err f [] = Inr []"
| "map_err f (x # xs) =
     (case f x of
        Inl e \<Rightarrow> Inl e
      | Inr y \<Rightarrow> (case map_err f xs of Inl e \<Rightarrow> Inl e | Inr ys \<Rightarrow> Inr (y # ys)))"

definition py_take :: "int \<Rightarrow> 'a list \<Rightarrow> 'a list" where
  \<comment> \<open>\<^verbatim>\<open>xs[:n]\<close>; a negative \<open>n\<close> counts from the end.\<close>
  "py_take n xs = (if n < 0 then take (nat (int (length xs) + n)) xs else take (nat n) xs)"

definition py_drop :: "int \<Rightarrow> 'a list \<Rightarrow> 'a list" where
  \<comment> \<open>\<^verbatim>\<open>xs[n:]\<close>\<close>
  "py_drop n xs = (if n < 0 then drop (nat (int (length xs) + n)) xs else drop (nat n) xs)"

definition sorted_desc :: "(int \<times> 'a) list \<Rightarrow> (int \<times> 'a) list" where
  \<comment> \<open>\<^verbatim>\<open>sorted(xs, key=lambda x: x[0], reverse=True)\<close>: stable, largest first.\<close>
  "sorted_desc xs = sort_key (\<lambda>x. - fst x) xs"

subsection \<open>Combining an example into a bin\<close>

fun tensor_max :: "tensor \<Rightarrow> int" where
  \<comment> \<open>\<^verbatim>\<open>torch.max\<close> of a non-empty tensor; the caller checks for the empty one.\<close>
  "tensor_max [] = 0"
| "tensor_max (x # xs) = fold max xs x"

definition mask_first_label :: "example \<Rightarrow> error + example" where
  \<comment> \<open>\<^verbatim>\<open>if 'labels' in add_on: add_on['labels'][0] = CROSS_ENTROPY_IGNORE_INDEX\<close>\<close>
  "mask_first_label add_on =
     (case map_of add_on ''labels'' of
        None \<Rightarrow> Inr add_on
      | Some ls \<Rightarrow>
          (case ls of
             [] \<Rightarrow> Inl IndexError
           | l # rest \<Rightarrow> Inr (dict_set ''labels'' (CROSS_ENTROPY_IGNORE_INDEX # rest) add_on)))"

fun cat_fields :: "example \<Rightarrow> example \<Rightarrow> error + example" where
  \<comment> \<open>The loop \<^verbatim>\<open>for k in example.keys()\<close>, one entry of \<open>example\<close> at a time.\<close>
  "cat_fields [] add_on = Inr []"
| "cat_fields ((k, v) # rest) add_on =
     (case dict_get add_on k of
        Inl e \<Rightarrow> Inl e
      | Inr a \<Rightarrow>
          (if k = ''sequence_id'' \<and> v = [] then Inl RuntimeError
           else
             (case cat_fields rest add_on of
                Inl e \<Rightarrow> Inl e
              | Inr rest' \<Rightarrow>
                  Inr ((k, if k = ''sequence_id''
                           then v @ map (\<lambda>x. x + 1 + tensor_max v) a
                           else v @ a) # rest'))))"

definition combine_in_place :: "example \<Rightarrow> example \<Rightarrow> error + example" where
  "combine_in_place example add_on =
     (case mask_first_label add_on of
        Inl e \<Rightarrow> Inl e
      | Inr add_on' \<Rightarrow> cat_fields example add_on')"

subsection \<open>Padding\<close>

definition slice_index :: "nat \<Rightarrow> int \<Rightarrow> nat" where
  \<comment> \<open>The position a slice bound denotes in a sequence of length \<open>n\<close>.\<close>
  "slice_index n i = (if i < 0 then nat (max 0 (int n + i)) else min n (nat i))"

definition assign_slice :: "tensor \<Rightarrow> nat \<Rightarrow> nat \<Rightarrow> tensor \<Rightarrow> error + tensor" where
  \<comment> \<open>\<^verbatim>\<open>t[start:stop] = src\<close> on tensors: the source must have the length of the slice,
      or length 1 (broadcast); anything else is torch's RuntimeError.\<close>
  "assign_slice t start stop src =
     (let n = stop - start in
      if length src = n then Inr (take start t @ src @ drop (start + n) t)
      else if length src = 1 then Inr (take start t @ replicate n (hd src) @ drop (start + n) t)
      else Inl RuntimeError)"

definition pad_tensor :: "tensor \<Rightarrow> int \<Rightarrow> int \<Rightarrow> string \<Rightarrow> error + tensor" where
  "pad_tensor tensor pad_value max_seq_len padding_side =
     (if int (length tensor) = max_seq_len then Inr tensor
      else if max_seq_len < 0 then Inl RuntimeError
      else
        (let t = replicate (nat max_seq_len) pad_value in
         if padding_side = ''left'' then
           assign_slice t (slice_index (length t) (- int (length tensor))) (length t) tensor
         else if padding_side = ''right'' then
           assign_slice t 0 (slice_index (length t) (int (length tensor))) tensor
         else Inl ValueError))"

subsection \<open>The first-fit bin-packing engine\<close>

fun first_fit :: "int \<Rightarrow> int \<Rightarrow> bin list \<Rightarrow> (bin list \<times> bin \<times> bin list) option" where
  \<comment> \<open>The scan \<^verbatim>\<open>for bidx in range(len(bins))\<close>: the bins before the first one that has
      room, that bin, and the bins after it.\<close>
  "first_fit item_size max_bin_size [] = None"
| "first_fit item_size max_bin_size (b # bs) =
     (if fst b + item_size \<le> max_bin_size then Some ([], b, bs)
      else (case first_fit item_size max_bin_size bs of
              None \<Rightarrow> None
            | Some (before, found, after) \<Rightarrow> Some (b # before, found, after)))"

definition place_item ::
  "bool \<Rightarrow> int \<Rightarrow> int \<Rightarrow> int \<Rightarrow> int \<Rightarrow> int \<times> example \<Rightarrow> bin list \<Rightarrow> bin list \<times> error option"
where
  \<comment> \<open>One iteration of the loop over the sorted items. The list \<open>bins\<close> is the caller's list
      object, mutated in place (\<^verbatim>\<open>pop\<close>, \<^verbatim>\<open>append\<close>), so its contents are returned also when
      the iteration raises: after the \<^verbatim>\<open>pop\<close> and before the \<^verbatim>\<open>append\<close> when
      \<^verbatim>\<open>_combine_in_place\<close> fails.\<close>
  "place_item profiling num_bins max_bin_size num_examples i item bins =
     (let item_size = fst item;
          example = snd item;
          required_num_examples = max 0 (num_bins - int (length bins));
          n_remaining = num_examples - i
      in if n_remaining < required_num_examples then (bins, Some (AssertionError ''''))
         else if n_remaining = required_num_examples then (bins @ [(item_size, example)], None)
         else
           (case first_fit item_size max_bin_size bins of
              None \<Rightarrow> (bins @ [(item_size, example)], None)
            | Some (before, found, after) \<Rightarrow>
                (let bin_size = fst found + item_size in
                 if profiling then (before @ after @ [(bin_size, snd found)], None)
                 else
                   (case combine_in_place (snd found) example of
                      Inl e \<Rightarrow> (before @ after, Some e)
                    | Inr packed_example \<Rightarrow>
                        (before @ after @ [(bin_size, packed_example)], None)))))"

fun pack_items ::
  "bool \<Rightarrow> int \<Rightarrow> int \<Rightarrow> int \<Rightarrow> int \<Rightarrow> (int \<times> example) list \<Rightarrow> bin list \<Rightarrow> bin list \<times> error option"
where
  \<comment> \<open>The loop \<^verbatim>\<open>for i, (size, example) in enumerate(sorted_sizes_and_examples)\<close>.\<close>
  "pack_items profiling num_bins max_bin_size num_examples i [] bins = (bins, None)"
| "pack_items profiling num_bins max_bin_size num_examples i (item # rest) bins =
     (case place_item profiling num_bins max_bin_size num_examples i item bins of
        (bins', Some e) \<Rightarrow> (bins', Some e)
      | (bins', None) \<Rightarrow>
          pack_items profiling num_bins max_bin_size num_examples (i + 1) rest bins')"

definition assemble_output ::
  "int list \<Rightarrow> int \<Rightarrow> int \<Rightarrow> bin list \<Rightarrow> bin list \<times> (error + example list \<times> int \<times> int \<times> bin list)"
where
  \<comment> \<open>The consistency check and the output assembly, which the source writes out twice
      (at the end of the fast-exit branch and at the end of the function).\<close>
  "assemble_output sizes num_bins starting_total_bin_sizes bins =
     (let total_bin_sizes = sum_list (map fst bins);
          total_new_bin_sizes = total_bin_sizes - starting_total_bin_sizes;
          total_example_sizes = sum_list sizes
      in if total_new_bin_sizes \<noteq> total_example_sizes then
           (bins, Inl (AssertionError ''Error in packing''))
         else
           (let sorted_bins = sorted_desc bins;
                bin_sizes = map fst sorted_bins;
                packed_examples = map snd sorted_bins
            in (bins, Inr (py_take num_bins packed_examples,
                           sum_list (py_take num_bins bin_sizes),
                           sum_list sizes,
                           py_drop num_bins sorted_bins))))"

definition first_fit_bin_packing ::
  "bool \<Rightarrow> int list \<Rightarrow> example list \<Rightarrow> int \<Rightarrow> int \<Rightarrow> bin list \<Rightarrow>
   bin list \<times> (error + example list \<times> int \<times> int \<times> bin list)"
where
  \<comment> \<open>The first argument is \<^verbatim>\<open>self._is_profiling\<close>. The first component of the result is
      the final contents of the list object \<^verbatim>\<open>existing_bins\<close>, which the source uses as its
      working list (\<^verbatim>\<open>bins = existing_bins\<close>).\<close>
  "first_fit_bin_packing profiling sizes examples num_bins max_bin_size existing_bins =
     (let starting_total_bin_sizes = sum_list (map fst existing_bins);
          sorted_sizes_and_examples = sorted_desc (zip sizes examples);
          required_num_examples = max 0 (num_bins - int (length existing_bins));
          num_examples = int (length sizes)
      in if num_examples < required_num_examples then
           assemble_output sizes num_bins starting_total_bin_sizes
             (existing_bins @ sorted_sizes_and_examples)
         else
           (case pack_items profiling num_bins max_bin_size num_examples 0
                   sorted_sizes_and_examples existing_bins of
              (bins, Some e) \<Rightarrow> (bins, Inl e)
            | (bins, None) \<Rightarrow> assemble_output sizes num_bins starting_total_bin_sizes bins))"

section \<open>The bin-pack collator\<close>

text \<open>
  The attributes of \<^verbatim>\<open>BinPackCollator\<close>. The base collator is a callable of the caller
  and is not part of the state that the packing path reads.
\<close>

record collator =
  out_size :: int
  max_seq_len :: int
  pad_token_id :: int
  padding_side :: string
  max_leftover_bins_to_keep :: "int option"
  n_packed_tokens :: int
  n_total_tokens :: int
  n_packed_examples :: int
  leftover_bins :: "bin list"
  is_profiling :: bool

definition init ::
  "int \<Rightarrow> int \<Rightarrow> int \<Rightarrow> string \<Rightarrow> int option \<Rightarrow> bool \<Rightarrow> error + collator"
where
  \<comment> \<open>\<^verbatim>\<open>__init__\<close>; the padding side is stored as given.\<close>
  "init target_batch_size seq_len pad_id side keep profiling =
     (if target_batch_size \<le> 0 then Inl ValueError
      else if seq_len \<le> 0 then Inl ValueError
      else if pad_id < 0 then Inl ValueError
      else if (case keep of None \<Rightarrow> False | Some k \<Rightarrow> k < 0) then Inl ValueError
      else Inr \<lparr> out_size = target_batch_size, max_seq_len = seq_len, pad_token_id = pad_id,
                 padding_side = side, max_leftover_bins_to_keep = keep,
                 n_packed_tokens = 0, n_total_tokens = 0, n_packed_examples = 0,
                 leftover_bins = [], is_profiling = profiling \<rparr>)"

definition waste :: "collator \<Rightarrow> error + real" where
  \<comment> \<open>\<^verbatim>\<open>1 - (self.n_packed_tokens / self.n_total_tokens)\<close>, read as exact arithmetic.\<close>
  "waste c =
     (if n_total_tokens c = 0 then Inl ZeroDivisionError
      else Inr (1 - real_of_int (n_packed_tokens c) / real_of_int (n_total_tokens c)))"

subsection \<open>Trimming a padded batch\<close>

definition mask_select :: "tensor \<Rightarrow> bool list \<Rightarrow> error + tensor" where
  \<comment> \<open>\<^verbatim>\<open>v[keep]\<close> with a boolean mask, which must have the shape of \<open>v\<close>.\<close>
  "mask_select v keep =
     (if length v = length keep then Inr (map fst (filter snd (zip v keep)))
      else Inl IndexError)"

definition extract_trim_batch_idx :: "batch \<Rightarrow> nat \<Rightarrow> error + int \<times> example" where
  "extract_trim_batch_idx batch idx =
     (case map_err (\<lambda>(k, v). if idx < length v then Inr (k, v ! idx) else Inl IndexError) batch of
        Inl e \<Rightarrow> Inl e
      | Inr example \<Rightarrow>
          (case dict_get example ''attention_mask'' of
             Inl e \<Rightarrow> Inl e
           | Inr attention \<Rightarrow>
               (let keep = map (\<lambda>x. x = 1) attention;
                    kept = int (length (filter (\<lambda>b. b) keep))
                in case map_err (\<lambda>(k, v). case mask_select v keep of
                                             Inl e \<Rightarrow> Inl e
                                           | Inr t \<Rightarrow> Inr (k, t)) example of
                     Inl e \<Rightarrow> Inl e
                   | Inr trim_example \<Rightarrow>
                       (case dict_get trim_example ''input_ids'' of
                          Inl e \<Rightarrow> Inl e
                        | Inr ids \<Rightarrow>
                            Inr (kept, dict_set ''sequence_id'' (replicate (length ids) 0)
                                         trim_example)))))"

definition trim_batch :: "batch \<Rightarrow> error + int list \<times> example list" where
  "trim_batch batch =
     (case dict_get batch ''attention_mask'' of
        Inl e \<Rightarrow> Inl e
      | Inr attention \<Rightarrow>
          (case map_err (extract_trim_batch_idx batch) [0 ..< length attention] of
             Inl e \<Rightarrow> Inl e
           | Inr trimmed \<Rightarrow> Inr (map fst trimmed, map snd trimmed)))"

subsection \<open>Packing and re-padding\<close>

definition pad_vals :: "collator \<Rightarrow> (string \<times> int) list" where
  "pad_vals c =
     [(''input_ids'', pad_token_id c), (''labels'', CROSS_ENTROPY_IGNORE_INDEX),
      (''attention_mask'', 0), (''sequence_id'', - 1)]"

definition pad_field :: "collator \<Rightarrow> string \<Rightarrow> example \<Rightarrow> error + tensor" where
  \<comment> \<open>\<^verbatim>\<open>_pad_tensor(example[key], pad_vals[key], self.max_seq_len, self.padding_side)\<close>\<close>
  "pad_field c key example =
     (case dict_get example key of
        Inl e \<Rightarrow> Inl e
      | Inr t \<Rightarrow>
          (case dict_get (pad_vals c) key of
             Inl e \<Rightarrow> Inl e
           | Inr pad_value \<Rightarrow> pad_tensor t pad_value (max_seq_len c) (padding_side c)))"

definition convert_to_batch :: "collator \<Rightarrow> example list \<Rightarrow> error + batch" where
  "convert_to_batch c packed_examples =
     (case packed_examples of
        [] \<Rightarrow> Inl IndexError
      | first # _ \<Rightarrow>
          map_err (\<lambda>key. case map_err (pad_field c key) packed_examples of
                            Inl e \<Rightarrow> Inl e
                          | Inr rows \<Rightarrow> Inr (key, rows))
                  (map fst first))"

definition keep_leftover :: "int option \<Rightarrow> bin list \<Rightarrow> bin list" where
  \<comment> \<open>\<^verbatim>\<open>leftover_bins[:self.max_leftover_bins_to_keep]\<close>; \<^verbatim>\<open>None\<close> keeps them all.\<close>
  "keep_leftover keep bins = (case keep of None \<Rightarrow> bins | Some k \<Rightarrow> py_take k bins)"

definition pack_trimmed_examples ::
  "collator \<Rightarrow> example list \<Rightarrow> int list \<Rightarrow> collator \<times> (error + batch option)"
where
  \<comment> \<open>The engine works on the list object \<^verbatim>\<open>self._leftover_bins\<close> itself, so when it raises
      the attribute holds whatever the engine had made of the list; the counters are
      written after the engine has returned and before the re-padding.\<close>
  "pack_trimmed_examples c trimmed_examples sizes =
     (case first_fit_bin_packing (is_profiling c) sizes trimmed_examples
             (out_size c) (max_seq_len c) (leftover_bins c) of
        (bins, Inl e) \<Rightarrow> (c\<lparr>leftover_bins := bins\<rparr>, Inl e)
      | (bins, Inr (packed_examples, packed_tokens, total_tokens, leftover)) \<Rightarrow>
          (let c' = c\<lparr> n_packed_tokens := n_packed_tokens c + packed_tokens,
                       n_total_tokens := n_total_tokens c + total_tokens,
                       n_packed_examples := n_packed_examples c + out_size c,
                       leftover_bins := keep_leftover (max_leftover_bins_to_keep c) leftover \<rparr>
           in if is_profiling c then (c', Inr None)
              else (case convert_to_batch c' packed_examples of
                      Inl e \<Rightarrow> (c', Inl e)
                    | Inr b \<Rightarrow> (c', Inr (Some b)))))"

definition allowed_keys :: "string list" where
  "allowed_keys = [''input_ids'', ''labels'', ''attention_mask'', ''sequence_id'']"

definition pack :: "collator \<Rightarrow> batch \<Rightarrow> collator \<times> (error + batch)" where
  "pack c batch =
     (if is_profiling c then (c, Inl ValueError)
      else if ''attention_mask'' \<notin> set (map fst batch) then (c, Inl (AssertionError ''''))
      else if ''input_ids'' \<notin> set (map fst batch) then (c, Inl (AssertionError ''''))
      else if \<not> list_all (\<lambda>key. key \<in> set allowed_keys) (map fst batch)
        then (c, Inl (AssertionError ''''))
      else
        (case trim_batch batch of
           Inl e \<Rightarrow> (c, Inl e)
         | Inr (sizes, trimmed_examples) \<Rightarrow>
             (case pack_trimmed_examples c trimmed_examples sizes of
                (c', Inl e) \<Rightarrow> (c', Inl e)
              | (c', Inr None) \<Rightarrow> (c', Inl (AssertionError ''''))
              | (c', Inr (Some packed_batch)) \<Rightarrow> (c', Inr packed_batch))))"

subsection \<open>Sequences of calls on one collator\<close>

text \<open>
  The two entry points that pack: \<^verbatim>\<open>pack(batch)\<close>, which the data loader calls in normal
  mode, and \<^verbatim>\<open>_pack_trimmed_examples(trimmed_examples, sizes)\<close>, which the profiler calls
  on a collator in profiling mode.
\<close>

datatype call = Pack batch | PackTrimmed "example list" "int list"

fun pack_calls :: "collator \<Rightarrow> call list \<Rightarrow> error + collator" where
  \<comment> \<open>A sequence of successful calls on one collator; the run ends at the first call
      that raises.\<close>
  "pack_calls c [] = Inr c"
| "pack_calls c (Pack batch # calls) =
     (case pack c batch of
        (c', Inl e) \<Rightarrow> Inl e
      | (c', Inr _) \<Rightarrow> pack_calls c' calls)"
| "pack_calls c (PackTrimmed trimmed_examples sizes # calls) =
     (case pack_trimmed_examples c trimmed_examples sizes of
        (c', Inl e) \<Rightarrow> Inl e
      | (c', Inr _) \<Rightarrow> pack_calls c' calls)"

subsection \<open>Well-formed batches and bins\<close>




section \<open>The auto-packing-ratio search and the global random state\<close>

text \<open>
  \<^verbatim>\<open>auto_packing_ratio\<close> reads and writes the process-wide random state through
  \<^verbatim>\<open>composer.utils.reproducibility\<close>, which is not part of the repository. The state is a
  value of an arbitrary type \<open>'r\<close>: \<^verbatim>\<open>get_rng_state()\<close> reads it, \<^verbatim>\<open>load_rng_state(s)\<close>
  replaces it by \<open>s\<close>, and \<^verbatim>\<open>seed_all(seed)\<close> replaces it by \<open>seed_all seed\<close>. The
  parameter \<open>profile\<close> stands for the iteration over \<^verbatim>\<open>profile_packing(...)\<close>, which
  builds a dataloader and draws from the generators: from the maximal ratio and the
  state it finds it gives the state it leaves and the profiling results, or the error
  it raised. The parameter \<open>all_reduce_min\<close> is the reduction across ranks, \<open>None\<close> when
  the process group is not initialised. \<^verbatim>\<open>max_ratio\<close> may be passed as a Python \<^verbatim>\<open>int\<close>
  or \<^verbatim>\<open>float\<close>; ratios are read as exact numbers.
\<close>

datatype number = PyInt int | PyFloat real

fun number_value :: "number \<Rightarrow> real" where
  "number_value (PyInt i) = real_of_int i"
| "number_value (PyFloat x) = x"

fun select_ratio :: "real \<Rightarrow> (real \<times> real option \<times> real option) list \<Rightarrow> real" where
  \<comment> \<open>The loop over \<^verbatim>\<open>profiling_results\<close> with its \<^verbatim>\<open>break\<close>.\<close>
  "select_ratio packing_ratio [] = packing_ratio"
| "select_ratio packing_ratio ((packing_ratio_candidate, padding, w) # rest) =
     (case w of
        None \<Rightarrow> packing_ratio
      | Some x \<Rightarrow> if x > 0 then packing_ratio else select_ratio packing_ratio_candidate rest)"

definition auto_packing_ratio ::
  "(int \<Rightarrow> 'r) \<Rightarrow>
   (real \<Rightarrow> 'r \<Rightarrow> 'r \<times> (error + (real \<times> real option \<times> real option) list)) \<Rightarrow>
   (real \<Rightarrow> real) option \<Rightarrow> int \<Rightarrow> number option \<Rightarrow> 'r \<Rightarrow> 'r \<times> (error + real)"
where
  \<comment> \<open>The last argument is the random state at the call; the first component of the
      result is the random state when the call returns or raises.\<close>
  "auto_packing_ratio seed_all profile all_reduce_min seq_len max_ratio rng =
     (let rng_state = rng;
          seeded = seed_all 0
      in if seq_len \<le> 100 then (seeded, Inr 1)
         else
           (case (case max_ratio of
                    None \<Rightarrow> Inr (real_of_int seq_len / 100)
                  | Some m \<Rightarrow>
                      if number_value m \<le> 1 then Inl ValueError
                      else (case m of
                              PyInt i \<Rightarrow> Inl (AssertionError '''')
                            | PyFloat x \<Rightarrow> Inr x)) of
              Inl e \<Rightarrow> (seeded, Inl e)
            | Inr ratio \<Rightarrow>
                (case profile ratio seeded of
                   (rng', Inl e) \<Rightarrow> (rng', Inl e)
                 | (rng', Inr profiling_results) \<Rightarrow>
                     (let packing_ratio = select_ratio 1 profiling_results;
                          reduced = (case all_reduce_min of
                                       None \<Rightarrow> packing_ratio
                                     | Some f \<Rightarrow> f packing_ratio)
                      in (rng_state, Inr reduced)))))"

section \<open>Properties of slices and of the descending sort\<close>

lemma py_take_drop: "py_take n xs @ py_drop n xs = xs"
  by (simp add: py_take_def py_drop_def)

lemma map_py_take: "map f (py_take n xs) = py_take n (map f xs)"
  by (simp add: py_take_def take_map)

lemma map_py_drop: "map f (py_drop n xs) = py_drop n (map f xs)"
  by (simp add: py_drop_def drop_map)

lemma sum_py_take_drop:
  "sum_list (py_take n (xs :: int list)) + sum_list (py_drop n xs) = sum_list xs"
proof -
  have "sum_list (py_take n xs @ py_drop n xs) = sum_list xs"
    by (simp only: py_take_drop)
  then show ?thesis by simp
qed

lemma mset_sorted_desc: "mset (sorted_desc xs) = mset xs"
  by (simp add: sorted_desc_def)

lemma sum_sorted_desc: "sum_list (map fst (sorted_desc xs)) = sum_list (map fst xs)"
proof -
  have "mset (map fst (sorted_desc xs)) = mset (map fst xs)"
    by (simp add: mset_sorted_desc)
  then show ?thesis by (metis sum_mset_sum_list)
qed

lemma set_sorted_desc: "set (sorted_desc xs) = set xs"
  by (simp add: sorted_desc_def)




section \<open>The engine: what one iteration and the loop do to the bins\<close>

lemma first_fit_Some:
  "first_fit s m bins = Some (before, found, after) \<Longrightarrow>
     bins = before @ found # after \<and> fst found + s \<le> m"
  by (induction bins arbitrary: before) (auto split: if_splits option.splits)

lemma assemble_output_Inr:
  assumes "assemble_output sizes num_bins start bins = (bins', Inr (packed, npt, ntt, leftover))"
  shows "bins' = bins \<and> sum_list (map fst bins) - start = sum_list sizes \<and> ntt = sum_list sizes
    \<and> npt + sum_list (map fst leftover) = sum_list (map fst bins)
    \<and> packed = py_take num_bins (map snd (sorted_desc bins))
    \<and> npt = sum_list (map fst (py_take num_bins (sorted_desc bins)))
    \<and> leftover = py_drop num_bins (sorted_desc bins)"
  using assms sum_py_take_drop[of num_bins "map fst (sorted_desc bins)"]
  by (auto simp: assemble_output_def Let_def map_py_take map_py_drop sum_sorted_desc
           split: if_splits)

lemma engine_Inr_cases:
  assumes "first_fit_bin_packing prof sizes examples num_bins m existing = (bins, Inr out)"
  shows "assemble_output sizes num_bins (sum_list (map fst existing)) bins = (bins, Inr out)"
  using assms
  by (auto simp: first_fit_bin_packing_def Let_def assemble_output_def
           split: if_splits prod.splits option.splits)











section \<open>A run of the engine\<close>


section \<open>The consistency assertion\<close>



section \<open>The fast-exit case\<close>




section \<open>The capacity invariant\<close>

lemma place_item_capacity:
  assumes "place_item prof num_bins m num_examples i item bins = (bins', res)"
    and "fst item \<le> m"
    and "\<forall>b\<in>set bins. fst b \<le> m"
  shows "\<forall>b\<in>set bins'. fst b \<le> m"
proof -
  have grow: "\<forall>b\<in>set (bins @ [item]). fst b \<le> m"
    using assms(2,3) by simp
  have "bins' = bins \<or> bins' = bins @ [(fst item, snd item)]
      \<or> (\<exists>before found after p. first_fit (fst item) m bins = Some (before, found, after)
            \<and> (bins' = before @ after \<or> bins' = before @ after @ [(fst found + fst item, p)]))"
    using assms(1)
    by (auto simp: place_item_def Let_def split: if_splits option.splits sum.splits)
  then show ?thesis
  proof (elim disjE exE conjE)
    assume "bins' = bins"
    then show ?thesis using assms(3) by simp
  next
    assume "bins' = bins @ [(fst item, snd item)]"
    then show ?thesis using grow by simp
  next
    fix before found after p
    assume ff: "first_fit (fst item) m bins = Some (before, found, after)"
      and "bins' = before @ after"
    then show ?thesis using first_fit_Some[OF ff] assms(3) by auto
  next
    fix before found after p
    assume ff: "first_fit (fst item) m bins = Some (before, found, after)"
      and "bins' = before @ after @ [(fst found + fst item, p)]"
    then show ?thesis using first_fit_Some[OF ff] assms(3) by auto
  qed
qed

lemma pack_items_capacity:
  "pack_items prof num_bins m num_examples i items bins = (bins', res) \<Longrightarrow>
   \<forall>item\<in>set items. fst item \<le> m \<Longrightarrow>
   \<forall>b\<in>set bins. fst b \<le> m \<Longrightarrow>
     \<forall>b\<in>set bins'. fst b \<le> m"
proof (induction items arbitrary: i bins)
  case Nil
  then show ?case by simp
next
  case (Cons item rest)
  obtain bs r where step: "place_item prof num_bins m num_examples i item bins = (bs, r)"
    by (cases "place_item prof num_bins m num_examples i item bins") auto
  have cap: "\<forall>b\<in>set bs. fst b \<le> m"
    using place_item_capacity[OF step] Cons.prems(2,3) by simp
  show ?case
  proof (cases r)
    case (Some e)
    with step Cons.prems(1) cap show ?thesis by simp
  next
    case None
    with step Cons.prems(1)
    have "pack_items prof num_bins m num_examples (i + 1) rest bs = (bins', res)"
      by simp
    from Cons.IH[OF this _ cap] Cons.prems(2) show ?thesis by simp
  qed
qed

lemma zip_sizes_bounded:
  "\<forall>s\<in>set sizes. s \<le> (m :: int) \<Longrightarrow> \<forall>item\<in>set (zip sizes examples). fst item \<le> m"
  by (auto dest: set_zip_leftD)

lemma engine_working_list:
  "fst (first_fit_bin_packing prof sizes examples num_bins m existing)
     = (if int (length sizes) < max 0 (num_bins - int (length existing))
        then existing @ sorted_desc (zip sizes examples)
        else fst (pack_items prof num_bins m (int (length sizes)) 0
                    (sorted_desc (zip sizes examples)) existing))"
  by (auto simp: first_fit_bin_packing_def assemble_output_def Let_def
           split: prod.splits option.splits)

lemma set_py_drop: "set (py_drop n xs) \<subseteq> set xs"
  by (auto simp: py_drop_def dest: in_set_dropD)

lemma set_py_take: "set (py_take n xs) \<subseteq> set xs"
  by (auto simp: py_take_def dest: in_set_takeD)

text \<open>
  C2, as the code has it. The engine opens a new bin for an item that fits nowhere
  without comparing the item with the capacity, so a bin can exceed \<^verbatim>\<open>max_bin_size\<close> when
  an item does. When every new item size and every existing bin size is at most
  \<^verbatim>\<open>max_bin_size\<close>, every bin of the working list is within capacity after each
  iteration of the loop (the state after the first \<open>k\<close> items, for every \<open>k\<close>), at the
  end of the call (also when it raises), and so is every returned leftover bin; the
  selected bins are taken from the same final list.
\<close>

theorem capacity_invariant:
  assumes sizes: "\<forall>s\<in>set sizes. s \<le> m"
    and existing: "\<forall>b\<in>set existing. fst b \<le> m"
  shows "(\<forall>k. \<forall>b\<in>set (fst (pack_items prof num_bins m (int (length sizes)) 0
                (take k (sorted_desc (zip sizes examples))) existing)). fst b \<le> m)
    \<and> (\<forall>b\<in>set (fst (first_fit_bin_packing prof sizes examples num_bins m existing)).
          fst b \<le> m)
    \<and> (\<forall>packed npt ntt leftover.
          snd (first_fit_bin_packing prof sizes examples num_bins m existing)
            = Inr (packed, npt, ntt, leftover)
          \<longrightarrow> (\<forall>b\<in>set leftover. fst b \<le> m))"
proof -
  let ?items = "sorted_desc (zip sizes examples)"
  have items: "\<forall>item\<in>set ?items. fst item \<le> m"
    using zip_sizes_bounded[OF sizes] by (simp add: set_sorted_desc)
  have prefix: "\<forall>b\<in>set (fst (pack_items prof num_bins m (int (length sizes)) 0
                  (take k ?items) existing)). fst b \<le> m" for k
  proof -
    have "\<forall>item\<in>set (take k ?items). fst item \<le> m"
      using items by (auto dest: in_set_takeD)
    from pack_items_capacity[OF surjective_pairing this existing] show ?thesis .
  qed
  have final: "\<forall>b\<in>set (fst (first_fit_bin_packing prof sizes examples num_bins m existing)).
                 fst b \<le> m"
    using prefix[of "length ?items"] items existing
    by (auto simp: engine_working_list)
  have left: "\<forall>b\<in>set leftover. fst b \<le> m"
    if out: "snd (first_fit_bin_packing prof sizes examples num_bins m existing)
          = Inr (packed, npt, ntt, leftover)" for packed npt ntt leftover
  proof -
    have run: "first_fit_bin_packing prof sizes examples num_bins m existing
        = (fst (first_fit_bin_packing prof sizes examples num_bins m existing),
           Inr (packed, npt, ntt, leftover))"
      using out by (simp flip: out)
    define bins where "bins = fst (first_fit_bin_packing prof sizes examples num_bins m existing)"
    note run = run[folded bins_def]
    from assemble_output_Inr[OF engine_Inr_cases[OF run]]
    have "leftover = py_drop num_bins (sorted_desc bins)" by blast
    then have "set leftover \<subseteq> set bins"
      using set_py_drop[of num_bins "sorted_desc bins"] by (simp add: set_sorted_desc)
    with final run show ?thesis by auto
  qed
  from prefix final left show ?thesis by blast
qed

theorem capacity_invariant_witness:
  "list_all (\<lambda>b. fst b \<le> 3)
     (fst (first_fit_bin_packing False [2, 1, 2]
       [[(''input_ids'', [11, 12]), (''labels'', [11, 12]), (''sequence_id'', [0, 0])],
        [(''input_ids'', [21]), (''labels'', [21]), (''sequence_id'', [0])],
        [(''input_ids'', [31, 32]), (''labels'', [31, 32]), (''sequence_id'', [0, 0])]]
       1 3 [(1, [(''input_ids'', [41]), (''labels'', [41]), (''sequence_id'', [0])])]))"
  using capacity_invariant[of "[2, 1, 2]" 3
     "[(1, [(''input_ids'', [41]), (''labels'', [41]), (''sequence_id'', [0])])]"
     False 1
     "[[(''input_ids'', [11, 12]), (''labels'', [11, 12]), (''sequence_id'', [0, 0])],
      [(''input_ids'', [21]), (''labels'', [21]), (''sequence_id'', [0])],
      [(''input_ids'', [31, 32]), (''labels'', [31, 32]), (''sequence_id'', [0, 0])]]"]
  by (simp add: list_all_iff)

text \<open>
  The claim as stated, for any sizes: one item of size 3 with capacity 2 and no existing
  bins is returned as a packed bin of size 3.
\<close>

theorem capacity_counterexample:
  "first_fit_bin_packing False [3] [[(''input_ids'', [11, 12, 13])]] 1 2 []
     = ([(3, [(''input_ids'', [11, 12, 13])])],
        Inr ([[(''input_ids'', [11, 12, 13])]], 3, 3, []))
   \<and> \<not> (3 :: int) \<le> 2"
  by code_simp

section \<open>The combine rule\<close>

lemma map_of_dict_set: "map_of (dict_set k v d) = (map_of d)(k \<mapsto> v)"
  by (induction d) (auto simp: fun_eq_iff)

lemma map_of_map_keyed:
  "map_of (map (\<lambda>(k, v). (k, f k v)) xs) k = map_option (f k) (map_of xs k)"
  by (induction xs) auto

lemma tensor_max_Max: "tensor_max v = Max (set v)" if "v \<noteq> []"
proof (cases v)
  case Nil
  then show ?thesis using that by simp
next
  case (Cons a list)
  show ?thesis unfolding Cons by (simp only: tensor_max.simps Max.set_eq_fold)
qed

lemma mask_first_label_Inr:
  assumes "\<forall>ls. map_of add_on ''labels'' = Some ls \<longrightarrow> ls \<noteq> []"
  shows "\<exists>add_on'. mask_first_label add_on = Inr add_on'
     \<and> (\<forall>k. map_of add_on' k
            = (if k = ''labels''
               then map_option (\<lambda>ls. CROSS_ENTROPY_IGNORE_INDEX # tl ls) (map_of add_on k)
               else map_of add_on k))"
  using assms
  by (auto simp: mask_first_label_def map_of_dict_set split: option.splits list.splits)

lemma cat_fields_Inr:
  assumes "\<forall>(k, v)\<in>set example. map_of add_on k \<noteq> None \<and> (k = ''sequence_id'' \<longrightarrow> v \<noteq> [])"
  shows "cat_fields example add_on
     = Inr (map (\<lambda>(k, v). (k, if k = ''sequence_id''
                               then v @ map (\<lambda>x. x + 1 + tensor_max v) (the (map_of add_on k))
                               else v @ the (map_of add_on k))) example)"
  using assms
  by (induction example) (auto simp: dict_get_def split: option.splits)

text \<open>
  C4. Let \<open>example\<close> be the packed example of a bin and \<open>add_on\<close> the example added to
  it, both dictionaries over the same field set: every field of \<open>example\<close> is a field of
  \<open>add_on\<close>, the \<^verbatim>\<open>labels\<close> of \<open>add_on\<close>, when present, have a first element, and the
  \<^verbatim>\<open>sequence_id\<close> of the bin, when present, is not empty (the bin holds tokens, so it has
  a maximum). Then \<^verbatim>\<open>_combine_in_place\<close> returns a dictionary with the fields of
  \<open>example\<close>, in which \<^verbatim>\<open>labels\<close> is the bin's labels followed by the add-on's labels with
  the first one replaced by the ignore index -100, \<^verbatim>\<open>sequence_id\<close> is the bin's sequence
  ids followed by the add-on's, each increased by 1 plus the maximum sequence id of the
  bin, and every other field is the plain concatenation. (Without these conditions the
  source raises: \<open>KeyError\<close> for a missing field, \<open>IndexError\<close> for empty labels,
  \<open>RuntimeError\<close> for the maximum of an empty tensor.) The witness is the scenario of the
  specification: labels \<open>[5,6,7]\<close> and \<open>[8,9]\<close> give \<open>[5,6,7,-100,9]\<close>.
\<close>

theorem combine_rule:
  assumes dist: "distinct (map fst example)"
    and keys: "fst ` set example \<subseteq> fst ` set add_on"
    and lab: "\<forall>ls. map_of add_on ''labels'' = Some ls \<longrightarrow> ls \<noteq> []"
    and seq: "\<forall>v. map_of example ''sequence_id'' = Some v \<longrightarrow> v \<noteq> []"
  shows "\<exists>result. combine_in_place example add_on = Inr result
     \<and> map fst result = map fst example
     \<and> (\<forall>k v a. map_of example k = Some v \<and> map_of add_on k = Some a \<longrightarrow>
          map_of result k
            = Some (if k = ''sequence_id'' then v @ map (\<lambda>x. x + 1 + Max (set v)) a
                    else if k = ''labels'' then v @ CROSS_ENTROPY_IGNORE_INDEX # tl a
                    else v @ a))"
proof -
  from mask_first_label_Inr[OF lab] obtain add_on' where
    masked: "mask_first_label add_on = Inr add_on'"
    and look: "\<And>k. map_of add_on' k
            = (if k = ''labels''
               then map_option (\<lambda>ls. CROSS_ENTROPY_IGNORE_INDEX # tl ls) (map_of add_on k)
               else map_of add_on k)"
    by blast
  let ?f = "\<lambda>k v. if k = ''sequence_id''
                    then v @ map (\<lambda>x. x + 1 + tensor_max v) (the (map_of add_on' k))
                    else v @ the (map_of add_on' k)"
  have pre: "\<forall>(k, v)\<in>set example. map_of add_on' k \<noteq> None \<and> (k = ''sequence_id'' \<longrightarrow> v \<noteq> [])"
  proof (clarify, intro conjI impI)
    fix k v assume kv: "(k, v) \<in> set example"
    then have "k \<in> fst ` set add_on" using keys by force
    then have "map_of add_on k \<noteq> None"
      by (simp add: map_of_eq_None_iff)
    then show "map_of add_on' k \<noteq> None" by (auto simp: look)
    assume "k = ''sequence_id''"
    with kv dist have "map_of example ''sequence_id'' = Some v" by simp
    with seq show "v \<noteq> []" by blast
  qed
  have res: "combine_in_place example add_on = Inr (map (\<lambda>(k, v). (k, ?f k v)) example)"
    using cat_fields_Inr[OF pre] masked by (simp add: combine_in_place_def)
  have fields: "map_of (map (\<lambda>(k, v). (k, ?f k v)) example) k
            = Some (if k = ''sequence_id'' then v @ map (\<lambda>x. x + 1 + Max (set v)) a
                    else if k = ''labels'' then v @ CROSS_ENTROPY_IGNORE_INDEX # tl a
                    else v @ a)"
    if ex: "map_of example k = Some v" and ad: "map_of add_on k = Some a" for k v a
  proof -
    have "k = ''sequence_id'' \<Longrightarrow> tensor_max v = Max (set v)"
      using seq ex by (auto intro: tensor_max_Max)
    then show ?thesis
      using ex ad by (auto simp: map_of_map_keyed look)
  qed
  have "map fst (map (\<lambda>(k, v). (k, ?f k v)) example) = map fst example"
    by (induction example) auto
  with res fields show ?thesis by blast
qed

theorem combine_rule_witness:
  "\<exists>result. combine_in_place
       [(''input_ids'', [1, 2, 3]), (''labels'', [5, 6, 7]), (''attention_mask'', [1, 1, 1]),
        (''sequence_id'', [0, 0, 1])]
       [(''input_ids'', [4, 5]), (''labels'', [8, 9]), (''attention_mask'', [1, 1]),
        (''sequence_id'', [0, 0])] = Inr result
     \<and> map_of result ''labels'' = Some [5, 6, 7, - 100, 9]
     \<and> map_of result ''sequence_id'' = Some [0, 0, 1, 2, 2]
     \<and> map_of result ''input_ids'' = Some [1, 2, 3, 4, 5]"
proof -
  let ?e = "[(''input_ids'', [1, 2, 3]), (''labels'', [5, 6, 7]), (''attention_mask'', [1, 1, 1]),
        (''sequence_id'', [0, 0, 1 :: int])]"
  let ?a = "[(''input_ids'', [4, 5]), (''labels'', [8, 9]), (''attention_mask'', [1, 1]),
        (''sequence_id'', [0, 0 :: int])]"
  have "distinct (map fst ?e)" "fst ` set ?e \<subseteq> fst ` set ?a"
    "\<forall>ls. map_of ?a ''labels'' = Some ls \<longrightarrow> ls \<noteq> []"
    "\<forall>v. map_of ?e ''sequence_id'' = Some v \<longrightarrow> v \<noteq> []"
    by simp_all
  from combine_rule[OF this] obtain result where
    r: "combine_in_place ?e ?a = Inr result"
    and f: "\<And>k v a. map_of ?e k = Some v \<Longrightarrow> map_of ?a k = Some a \<Longrightarrow>
          map_of result k
            = Some (if k = ''sequence_id'' then v @ map (\<lambda>x. x + 1 + Max (set v)) a
                    else if k = ''labels'' then v @ CROSS_ENTROPY_IGNORE_INDEX # tl a
                    else v @ a)"
    by blast
  have "map_of result ''labels'' = Some [5, 6, 7, - 100, 9]"
    using f[of "''labels''" "[5, 6, 7]" "[8, 9]"] by (simp add: CROSS_ENTROPY_IGNORE_INDEX_def)
  moreover have "map_of result ''sequence_id'' = Some [0, 0, 1, 2, 2]"
    using f[of "''sequence_id''" "[0, 0, 1]" "[0, 0]"] by simp
  moreover have "map_of result ''input_ids'' = Some [1, 2, 3, 4, 5]"
    using f[of "''input_ids''" "[1, 2, 3]" "[4, 5]"] by simp
  ultimately show ?thesis using r by blast
qed

section \<open>Padding\<close>










section \<open>The random state around the ratio search\<close>

text \<open>
  When the search runs to its end, the state stashed on entry is the state on return.
\<close>

lemma auto_packing_ratio_restores:
  "100 < seq_len \<Longrightarrow>
   auto_packing_ratio seed_all profile reduce seq_len max_ratio rng = (rng', Inr ratio) \<Longrightarrow>
     rng' = rng"
  by (auto simp: auto_packing_ratio_def Let_def
           split: if_splits sum.splits prod.splits option.splits number.splits)

text \<open>
  On the short-circuit the call returns 1 and the state is the one \<^verbatim>\<open>seed_all(0)\<close>
  installed, whatever the state was at the call.
\<close>

lemma auto_packing_ratio_short_circuit_state:
  "seq_len \<le> 100 \<Longrightarrow>
   auto_packing_ratio seed_all profile reduce seq_len max_ratio rng = (seed_all 0, Inr 1)"
  by (simp add: auto_packing_ratio_def)

text \<open>
  C8. The claim is that every returning invocation of \<^verbatim>\<open>auto_packing_ratio\<close> restores the
  random state, the short-circuit for \<^verbatim>\<open>max_seq_len <= 100\<close> included. The source stashes
  the state and seeds the generators before the short-circuit and returns 1 from it
  without loading the stashed state. Below, a random state is identified with a natural
  number and \<^verbatim>\<open>seed_all(seed)\<close> installs the state \<open>seed\<close>: with \<^verbatim>\<open>max_seq_len = 50\<close> and
  the caller's state 7, the call returns ratio 1 and leaves the state 0.
\<close>

theorem auto_packing_ratio_short_circuit:
  "auto_packing_ratio (\<lambda>seed. nat seed) (\<lambda>ratio rng. (rng, Inr [])) None 50 None (7 :: nat)
     = (0, Inr 1)"
  by (simp add: auto_packing_ratio_def)

section \<open>The collator's state when a call raises\<close>





lemma pack_first_call_example:
  "init 1 3 0 ''left'' None False
     = Inr \<lparr> out_size = 1, max_seq_len = 3, pad_token_id = 0, padding_side = ''left'',
          max_leftover_bins_to_keep = None, n_packed_tokens = 0, n_total_tokens = 0,
          n_packed_examples = 0, leftover_bins = [], is_profiling = False \<rparr>
   \<and> pack \<lparr> out_size = 1, max_seq_len = 3, pad_token_id = 0, padding_side = ''left'',
          max_leftover_bins_to_keep = None, n_packed_tokens = 0, n_total_tokens = 0,
          n_packed_examples = 0, leftover_bins = [], is_profiling = False \<rparr>
       [(''input_ids'', [[4, 5, 0], [6, 7, 0]]), (''labels'', [[4, 5, 0], [6, 7, 0]]),
        (''attention_mask'', [[1, 1, 0], [1, 1, 0]])]
   = (\<lparr> out_size = 1, max_seq_len = 3, pad_token_id = 0, padding_side = ''left'',
          max_leftover_bins_to_keep = None, n_packed_tokens = 2, n_total_tokens = 4,
          n_packed_examples = 1,
          leftover_bins = [(2, [(''input_ids'', [6, 7]), (''labels'', [6, 7]),
                                (''attention_mask'', [1, 1]), (''sequence_id'', [0, 0])])],
          is_profiling = False \<rparr>,
      Inr [(''input_ids'', [[0, 4, 5]]), (''labels'', [[- 100, 4, 5]]),
           (''attention_mask'', [[0, 1, 1]]), (''sequence_id'', [[- 1, 0, 0]])])"
  by code_simp


section \<open>Profiling-mode calls of the engine return\<close>




section \<open>Error-collecting maps, trimming and re-padding\<close>

lemma map_err_set:
  "map_err f xs = Inr ys \<Longrightarrow> \<forall>y\<in>set ys. \<exists>x\<in>set xs. f x = Inr y"
  by (induction xs arbitrary: ys) (auto split: sum.splits)


lemma extract_trim_batch_idx_nonneg:
  "extract_trim_batch_idx batch idx = Inr (s, ex) \<Longrightarrow> 0 \<le> s"
  by (auto simp: extract_trim_batch_idx_def Let_def split: sum.splits)

lemma trim_batch_nonneg:
  assumes "trim_batch batch = Inr (sizes, trimmed)"
  shows "\<forall>s\<in>set sizes. 0 \<le> s"
proof -
  from assms obtain att pairs where
    "map_err (extract_trim_batch_idx batch) [0 ..< length (att :: tensor list)] = Inr pairs"
    and sizes: "sizes = map fst pairs"
    by (auto simp: trim_batch_def split: sum.splits)
  from map_err_set[OF this(1)]
  have "\<forall>p\<in>set pairs. \<exists>idx. extract_trim_batch_idx batch idx = Inr p"
    by blast
  then show ?thesis
    using extract_trim_batch_idx_nonneg unfolding sizes
    by (metis (no_types, lifting) imageE list.set_map prod.collapse)
qed





section \<open>Every bin keeps the fields of an example\<close>







section \<open>Output cardinality\<close>




section \<open>Cumulative counters\<close>

lemma place_item_nonneg:
  assumes "place_item prof num_bins m num_examples i item bins = (bins', res)"
    and "0 \<le> fst item"
    and "\<forall>b\<in>set bins. 0 \<le> fst b"
  shows "\<forall>b\<in>set bins'. 0 \<le> fst b"
proof -
  have "bins' = bins \<or> bins' = bins @ [(fst item, snd item)]
      \<or> (\<exists>before found after p. first_fit (fst item) m bins = Some (before, found, after)
            \<and> (bins' = before @ after \<or> bins' = before @ after @ [(fst found + fst item, p)]))"
    using assms(1)
    by (auto simp: place_item_def Let_def split: if_splits option.splits sum.splits)
  then show ?thesis
  proof (elim disjE exE conjE)
    assume "bins' = bins"
    then show ?thesis using assms(3) by simp
  next
    assume "bins' = bins @ [(fst item, snd item)]"
    then show ?thesis using assms(2,3) by simp
  next
    fix before found after p
    assume ff: "first_fit (fst item) m bins = Some (before, found, after)"
      and "bins' = before @ after"
    then show ?thesis using first_fit_Some[OF ff] assms(3) by auto
  next
    fix before found after p
    assume ff: "first_fit (fst item) m bins = Some (before, found, after)"
      and "bins' = before @ after @ [(fst found + fst item, p)]"
    then show ?thesis using first_fit_Some[OF ff] assms(2,3) by auto
  qed
qed

lemma pack_items_nonneg:
  "pack_items prof num_bins m num_examples i items bins = (bins', res) \<Longrightarrow>
   \<forall>item\<in>set items. 0 \<le> fst item \<Longrightarrow>
   \<forall>b\<in>set bins. 0 \<le> fst b \<Longrightarrow>
     \<forall>b\<in>set bins'. 0 \<le> fst b"
proof (induction items arbitrary: i bins)
  case Nil
  then show ?case by simp
next
  case (Cons item rest)
  obtain bs r where step: "place_item prof num_bins m num_examples i item bins = (bs, r)"
    by (cases "place_item prof num_bins m num_examples i item bins") auto
  have pos: "\<forall>b\<in>set bs. 0 \<le> fst b"
    using place_item_nonneg[OF step] Cons.prems(2,3) by simp
  show ?case
  proof (cases r)
    case (Some e)
    with step Cons.prems(1) pos show ?thesis by simp
  next
    case None
    with step Cons.prems(1)
    have "pack_items prof num_bins m num_examples (i + 1) rest bs = (bins', res)"
      by simp
    from Cons.IH[OF this _ pos] Cons.prems(2) show ?thesis by simp
  qed
qed

lemma engine_nonneg:
  assumes sizes: "\<forall>s\<in>set sizes. 0 \<le> s"
    and existing: "\<forall>b\<in>set existing. 0 \<le> fst b"
  shows "\<forall>b\<in>set (fst (first_fit_bin_packing prof sizes examples num_bins m existing)).
           0 \<le> fst b"
proof -
  let ?items = "sorted_desc (zip sizes examples)"
  have items: "\<forall>item\<in>set ?items. 0 \<le> fst item"
    using sizes by (auto simp: set_sorted_desc dest: set_zip_leftD)
  from pack_items_nonneg[OF surjective_pairing items existing] items existing
  show ?thesis
    by (auto simp: engine_working_list)
qed

lemma sum_list_nonneg_fst:
  "\<forall>b\<in>set xs. 0 \<le> fst b \<Longrightarrow> 0 \<le> sum_list (map fst (xs :: (int \<times> 'a) list))"
  by (induction xs) auto

lemma engine_output_nonneg:
  assumes run: "first_fit_bin_packing prof sizes examples num_bins m existing
                  = (bins, Inr (packed, npt, ntt, leftover))"
    and sizes: "\<forall>s\<in>set sizes. 0 \<le> s"
    and existing: "\<forall>b\<in>set existing. 0 \<le> fst b"
  shows "0 \<le> npt \<and> (\<forall>b\<in>set leftover. 0 \<le> fst b)"
proof -
  note out = assemble_output_Inr[OF engine_Inr_cases[OF run]]
  have bins: "\<forall>b\<in>set bins. 0 \<le> fst b"
    using engine_nonneg[OF sizes existing, of prof examples num_bins m] run by simp
  from out have "npt = sum_list (map fst (py_take num_bins (sorted_desc bins)))" by blast
  moreover have "\<forall>b\<in>set (py_take num_bins (sorted_desc bins)). 0 \<le> fst b"
    using bins set_py_take[of num_bins "sorted_desc bins"] by (auto simp: set_sorted_desc)
  ultimately have "0 \<le> npt"
    using sum_list_nonneg_fst by blast
  moreover from out have "leftover = py_drop num_bins (sorted_desc bins)" by blast
  then have "\<forall>b\<in>set leftover. 0 \<le> fst b"
    using bins set_py_drop[of num_bins "sorted_desc bins"] by (auto simp: set_sorted_desc)
  ultimately show ?thesis by blast
qed

lemma keep_leftover_sum:
  assumes "\<forall>b\<in>set xs. 0 \<le> fst b"
  shows "sum_list (map fst (keep_leftover k xs)) \<le> sum_list (map fst xs)
       \<and> (\<forall>b\<in>set (keep_leftover k xs). 0 \<le> fst b)"
proof (cases k)
  case None
  then show ?thesis using assms by (simp add: keep_leftover_def)
next
  case (Some n)
  have "sum_list (map fst xs)
          = sum_list (map fst (py_take n xs)) + sum_list (map fst (py_drop n xs))"
    using sum_py_take_drop[of n "map fst xs"] by (simp add: map_py_take map_py_drop)
  moreover have "0 \<le> sum_list (map fst (py_drop n xs))"
    using assms set_py_drop[of n xs] by (intro sum_list_nonneg_fst) auto
  moreover have "\<forall>b\<in>set (py_take n xs). 0 \<le> fst b"
    using assms set_py_take[of n xs] by auto
  ultimately show ?thesis using Some by (simp add: keep_leftover_def)
qed

lemma pack_trimmed_examples_inv:
  assumes call: "pack_trimmed_examples c trimmed sizes = (c', Inr r)"
    and sizes: "\<forall>s\<in>set sizes. 0 \<le> s"
    and left: "\<forall>b\<in>set (leftover_bins c). 0 \<le> fst b"
    and packed: "0 \<le> n_packed_tokens c"
    and inv: "n_packed_tokens c + sum_list (map fst (leftover_bins c)) \<le> n_total_tokens c"
  shows "(\<forall>b\<in>set (leftover_bins c'). 0 \<le> fst b)
       \<and> 0 \<le> n_packed_tokens c'
       \<and> n_packed_tokens c' + sum_list (map fst (leftover_bins c')) \<le> n_total_tokens c'"
proof -
  obtain bins pk npt ntt leftover where
    run: "first_fit_bin_packing (is_profiling c) sizes trimmed (out_size c) (max_seq_len c)
            (leftover_bins c) = (bins, Inr (pk, npt, ntt, leftover))"
    and c': "c' = c\<lparr> n_packed_tokens := n_packed_tokens c + npt,
                     n_total_tokens := n_total_tokens c + ntt,
                     n_packed_examples := n_packed_examples c + out_size c,
                     leftover_bins := keep_leftover (max_leftover_bins_to_keep c) leftover \<rparr>"
    using call
    by (auto simp: pack_trimmed_examples_def Let_def
             split: prod.splits sum.splits if_splits)
  note out = assemble_output_Inr[OF engine_Inr_cases[OF run]]
  from out have ntt: "ntt = sum_list sizes" by blast
  from out have bal: "sum_list (map fst bins) - sum_list (map fst (leftover_bins c)) = sum_list sizes"
    by blast
  from out have split: "npt + sum_list (map fst leftover) = sum_list (map fst bins)"
    by blast
  note nn = engine_output_nonneg[OF run sizes left]
  note kept = keep_leftover_sum[of leftover "max_leftover_bins_to_keep c"]
  have k1: "sum_list (map fst (keep_leftover (max_leftover_bins_to_keep c) leftover))
              \<le> sum_list (map fst leftover)"
    and k2: "\<forall>b\<in>set (keep_leftover (max_leftover_bins_to_keep c) leftover). 0 \<le> fst b"
    using kept nn by blast+
  have "n_packed_tokens c + npt
          + sum_list (map fst (keep_leftover (max_leftover_bins_to_keep c) leftover))
        \<le> n_total_tokens c + ntt"
    using inv ntt bal split k1 by linarith
  moreover have "0 \<le> n_packed_tokens c + npt"
    using packed nn by simp
  ultimately show ?thesis using k2 by (simp add: c')
qed

lemma pack_inv:
  assumes call: "pack c batch = (c', Inr out)"
    and left: "\<forall>b\<in>set (leftover_bins c). 0 \<le> fst b"
    and packed: "0 \<le> n_packed_tokens c"
    and inv: "n_packed_tokens c + sum_list (map fst (leftover_bins c)) \<le> n_total_tokens c"
  shows "(\<forall>b\<in>set (leftover_bins c'). 0 \<le> fst b)
       \<and> 0 \<le> n_packed_tokens c'
       \<and> n_packed_tokens c' + sum_list (map fst (leftover_bins c')) \<le> n_total_tokens c'"
proof -
  from call obtain sizes trimmed where
    trim: "trim_batch batch = Inr (sizes, trimmed)"
    and run: "pack_trimmed_examples c trimmed sizes = (c', Inr (Some out))"
    by (auto simp: pack_def split: if_splits sum.splits prod.splits option.splits)
  from pack_trimmed_examples_inv[OF run trim_batch_nonneg[OF trim] left packed inv]
  show ?thesis .
qed

lemma pack_calls_inv:
  "pack_calls c calls = Inr c' \<Longrightarrow>
   \<forall>ex sizes. PackTrimmed ex sizes \<in> set calls \<longrightarrow> (\<forall>s\<in>set sizes. 0 \<le> s) \<Longrightarrow>
   \<forall>b\<in>set (leftover_bins c). 0 \<le> fst b \<Longrightarrow>
   0 \<le> n_packed_tokens c \<Longrightarrow>
   n_packed_tokens c + sum_list (map fst (leftover_bins c)) \<le> n_total_tokens c \<Longrightarrow>
     (\<forall>b\<in>set (leftover_bins c'). 0 \<le> fst b)
       \<and> 0 \<le> n_packed_tokens c'
       \<and> n_packed_tokens c' + sum_list (map fst (leftover_bins c')) \<le> n_total_tokens c'"
proof (induction c calls rule: pack_calls.induct)
  case (1 c)
  then show ?case by simp
next
  case (2 c batch calls)
  from "2.prems"(1) obtain c1 out where
    step: "pack c batch = (c1, Inr out)" and rest: "pack_calls c1 calls = Inr c'"
    by (auto split: prod.splits sum.splits)
  note inv1 = pack_inv[OF step "2.prems"(3,4,5)]
  show ?case
    using "2.IH"[OF step[symmetric] refl rest] "2.prems"(2) inv1 by auto
next
  case (3 c trimmed sizes calls)
  from "3.prems"(1) obtain c1 out where
    step: "pack_trimmed_examples c trimmed sizes = (c1, Inr out)"
    and rest: "pack_calls c1 calls = Inr c'"
    by (auto split: prod.splits sum.splits)
  have "\<forall>s\<in>set sizes. 0 \<le> s" using "3.prems"(2) by auto
  note inv1 = pack_trimmed_examples_inv[OF step this "3.prems"(3,4,5)]
  show ?case
    using "3.IH"[OF step[symmetric] refl rest] "3.prems"(2) inv1 by auto
qed

text \<open>
  C10. Start from a freshly constructed collator and make any finite sequence of
  successful packing calls, through \<^verbatim>\<open>pack\<close> or through \<^verbatim>\<open>_pack_trimmed_examples\<close>
  with sizes that are token counts (not negative; the sizes \<^verbatim>\<open>pack\<close> computes always
  are). Then the packed tokens plus the tokens still carried in leftover bins never
  exceed the total tokens: a token carried across calls is counted as packed at most
  once, when its bin is selected. Hence \<open>0 \<le> n_packed_tokens \<le> n_total_tokens\<close>, and
  the waste, whenever it is defined (\<^verbatim>\<open>n_total_tokens\<close> is not zero), lies in \<open>[0, 1]\<close>.
\<close>

theorem cumulative_waste_bounded:
  assumes fresh: "init target_batch_size seq_len pad_id side keep profiling = Inr c0"
    and run: "pack_calls c0 calls = Inr c"
    and sizes: "\<forall>ex sizes. PackTrimmed ex sizes \<in> set calls \<longrightarrow> (\<forall>s\<in>set sizes. 0 \<le> s)"
  shows "0 \<le> n_packed_tokens c
    \<and> n_packed_tokens c + sum_list (map fst (leftover_bins c)) \<le> n_total_tokens c
    \<and> n_packed_tokens c \<le> n_total_tokens c
    \<and> (\<forall>w. waste c = Inr w \<longrightarrow> 0 \<le> w \<and> w \<le> 1)"
proof -
  from fresh have c0: "leftover_bins c0 = []" "n_packed_tokens c0 = 0" "n_total_tokens c0 = 0"
    by (auto simp: init_def split: if_splits)
  from pack_calls_inv[OF run sizes] c0
  have left: "\<forall>b\<in>set (leftover_bins c). 0 \<le> fst b"
    and pos: "0 \<le> n_packed_tokens c"
    and inv: "n_packed_tokens c + sum_list (map fst (leftover_bins c)) \<le> n_total_tokens c"
    by simp_all
  have le: "n_packed_tokens c \<le> n_total_tokens c"
    using inv sum_list_nonneg_fst[OF left] by linarith
  have "0 \<le> w \<and> w \<le> 1" if "waste c = Inr w" for w
  proof -
    from that have t: "n_total_tokens c \<noteq> 0"
      and w: "w = 1 - real_of_int (n_packed_tokens c) / real_of_int (n_total_tokens c)"
      by (auto simp: waste_def split: if_splits)
    from t le pos have tpos: "0 < real_of_int (n_total_tokens c)" by simp
    have "0 \<le> real_of_int (n_packed_tokens c) / real_of_int (n_total_tokens c)"
      using pos tpos by simp
    moreover have "real_of_int (n_packed_tokens c) / real_of_int (n_total_tokens c) \<le> 1"
      using le tpos by simp
    ultimately show ?thesis using w by simp
  qed
  with pos inv le show ?thesis by blast
qed

theorem cumulative_waste_bounded_witness:
  "\<exists>c0 c.
     init 1 3 0 ''left'' (Some 0) True = Inr c0
   \<and> pack_calls c0
        [PackTrimmed [[(''input_ids'', [4, 5])], [(''input_ids'', [6, 7])]] [2, 2],
         PackTrimmed [[(''input_ids'', [8])], [(''input_ids'', [9, 9])]] [1, 2]] = Inr c
   \<and> 0 \<le> n_packed_tokens c \<and> n_packed_tokens c \<le> n_total_tokens c
   \<and> waste c = Inr (2 / 7)"
proof -
  let ?fresh = "\<lparr> out_size = 1, max_seq_len = 3, pad_token_id = 0, padding_side = ''left'',
          max_leftover_bins_to_keep = Some 0, n_packed_tokens = 0, n_total_tokens = 0,
          n_packed_examples = 0, leftover_bins = [], is_profiling = True \<rparr>"
  let ?calls = "[PackTrimmed [[(''input_ids'', [4, 5])], [(''input_ids'', [6, 7])]] [2, 2],
         PackTrimmed [[(''input_ids'', [8])], [(''input_ids'', [9, 9])]] [1, 2]]"
  let ?c = "\<lparr> out_size = 1, max_seq_len = 3, pad_token_id = 0, padding_side = ''left'',
        max_leftover_bins_to_keep = Some 0, n_packed_tokens = 5, n_total_tokens = 7,
        n_packed_examples = 2, leftover_bins = [], is_profiling = True \<rparr>"
  have fresh: "init 1 3 0 ''left'' (Some 0) True = Inr ?fresh"
    by (simp add: init_def)
  have run: "pack_calls ?fresh ?calls = Inr ?c"
    by code_simp
  have w: "waste ?c = Inr (2 / 7)"
    by (simp add: waste_def)
  from cumulative_waste_bounded[OF fresh run] have
    "0 \<le> n_packed_tokens ?c \<and> n_packed_tokens ?c \<le> n_total_tokens ?c"
    by auto
  with fresh run w show ?thesis by blast
qed


section \<open>Well-formed input: the packing call returns\<close>



lemma length_filter_zip_mask:
  "length v = length keep \<Longrightarrow>
     length (filter snd (zip v keep)) = length (filter (\<lambda>b. b) keep)"
  by (induction v keep rule: list_induct2) auto

lemma mask_select_length:
  "length v = length keep \<Longrightarrow>
     \<exists>t. mask_select v keep = Inr t \<and> length t = length (filter (\<lambda>b. b) keep)"
  by (simp add: mask_select_def length_filter_zip_mask)


















section \<open>Output cardinality\<close>




section \<open>Token conservation\<close>



end
